theory Spec2Isabelle
  imports Main
begin

section \<open>Strings\<close>

text \<open>
  The listener works on JavaScript strings. A \<^typ>\<open>char\<close> stands for one UTF-16 code
  unit below 256 (the Latin-1 range); code units above that range are not represented.
  For that range \<open>isWhiteSpace\<close> is the set that \<^verbatim>\<open>String.prototype.trim\<close> strips and that
  the regular-expression class \<^verbatim>\<open>\s\<close> matches (white space and line terminators),
  \<open>isLineTerminator\<close> is what the regular-expression dot refuses, and \<open>toLowerChar\<close> is
  \<^verbatim>\<open>toLowerCase\<close> on one code unit.
\<close>

definition isWhiteSpace :: "char \<Rightarrow> bool" where
  "isWhiteSpace c =
     (c \<in> {CHR 0x09, CHR 0x0A, CHR 0x0B, CHR 0x0C, CHR 0x0D, CHR 0x20, CHR 0xA0})"

definition isLineTerminator :: "char \<Rightarrow> bool" where
  "isLineTerminator c = (c = CHR 0x0A \<or> c = CHR 0x0D)"

definition isDigit :: "char \<Rightarrow> bool" where
  "isDigit c = (c \<in> set ''0123456789'')"

definition upperCaseLetters :: string where
  "upperCaseLetters = ''ABCDEFGHIJKLMNOPQRSTUVWXYZ'' @
     [CHR 0xC0, CHR 0xC1, CHR 0xC2, CHR 0xC3, CHR 0xC4, CHR 0xC5, CHR 0xC6, CHR 0xC7,
      CHR 0xC8, CHR 0xC9, CHR 0xCA, CHR 0xCB, CHR 0xCC, CHR 0xCD, CHR 0xCE, CHR 0xCF,
      CHR 0xD0, CHR 0xD1, CHR 0xD2, CHR 0xD3, CHR 0xD4, CHR 0xD5, CHR 0xD6,
      CHR 0xD8, CHR 0xD9, CHR 0xDA, CHR 0xDB, CHR 0xDC, CHR 0xDD, CHR 0xDE]"

definition lowerCaseLetters :: string where
  "lowerCaseLetters = ''abcdefghijklmnopqrstuvwxyz'' @
     [CHR 0xE0, CHR 0xE1, CHR 0xE2, CHR 0xE3, CHR 0xE4, CHR 0xE5, CHR 0xE6, CHR 0xE7,
      CHR 0xE8, CHR 0xE9, CHR 0xEA, CHR 0xEB, CHR 0xEC, CHR 0xED, CHR 0xEE, CHR 0xEF,
      CHR 0xF0, CHR 0xF1, CHR 0xF2, CHR 0xF3, CHR 0xF4, CHR 0xF5, CHR 0xF6,
      CHR 0xF8, CHR 0xF9, CHR 0xFA, CHR 0xFB, CHR 0xFC, CHR 0xFD, CHR 0xFE]"

definition toLowerChar :: "char \<Rightarrow> char" where
  "toLowerChar c =
     (case map_of (zip upperCaseLetters lowerCaseLetters) c of Some l \<Rightarrow> l | None \<Rightarrow> c)"

definition toLowerCase :: "string \<Rightarrow> string" where
  "toLowerCase s = map toLowerChar s"

definition trim :: "string \<Rightarrow> string" where
  "trim s = rev (dropWhile isWhiteSpace (rev (dropWhile isWhiteSpace s)))"

definition endsWith :: "string \<Rightarrow> string \<Rightarrow> bool" where
  "endsWith s suffix =
     (length suffix \<le> length s \<and> drop (length s - length suffix) s = suffix)"

text \<open>
  \<^verbatim>\<open>s.split(sep)\<close> for a one-character separator: the result is never empty, and
  the empty string splits into one empty part.
\<close>

fun split_str :: "char \<Rightarrow> string \<Rightarrow> string list" where
  "split_str sep [] = [[]]"
| "split_str sep (c # cs) =
     (if c = sep then [] # split_str sep cs
      else (case split_str sep cs of
              [] \<Rightarrow> [[c]]
            | part # parts \<Rightarrow> (c # part) # parts))"

fun join :: "string \<Rightarrow> string list \<Rightarrow> string" where
  "join sep [] = []"
| "join sep [part] = part"
| "join sep (part # next # parts) = part @ sep @ join sep (next # parts)"

text \<open>
  \<^verbatim>\<open>Number.parseInt(ds, 10)\<close> on a string of decimal digits, which is all the regular
  expression lets through. The source computes in floating point, where a digit string
  too long for a double reads as a number above every bound the parser compares with, or
  as Infinity, which \<^verbatim>\<open>Number.isInteger\<close> refuses; in both events the parser rejects,
  as it does here by the upper bound.
\<close>

definition parseInt :: "string \<Rightarrow> nat" where
  "parseInt ds = foldl (\<lambda>n c. 10 * n + (of_char c - 48)) 0 ds"

section \<open>Command parser\<close>

definition KEYPRESS_DURATION_MS :: int where
  "KEYPRESS_DURATION_MS = 80"

definition LONG_KEYPRESS_DURATION_MS :: int where
  "LONG_KEYPRESS_DURATION_MS = KEYPRESS_DURATION_MS * 3"

definition MAX_COMMAND_SPAM_REPEAT :: nat where
  "MAX_COMMAND_SPAM_REPEAT = 100"

definition SUPPORTED_COMMANDS :: "string list" where
  "SUPPORTED_COMMANDS =
     [''up'', ''down'', ''left'', ''right'', ''a'', ''b'', ''start'', ''select'', ''l'', ''r'']"

record ParsedCommand =
  buttons :: "string list"
  durationMs :: int
  normalized :: string
  repeatCount :: nat

definition normalizeCommand :: "string \<Rightarrow> string" where
  "normalizeCommand raw = toLowerCase (trim raw)"

text \<open>
  The regular expression \<^verbatim>\<open>/^(.+?)\s+x(\d+)$/\<close> of \<open>parseCommand\<close>, as the backtracking
  matcher runs it. \<open>matchSpamTail\<close> is \<^verbatim>\<open>\s+x(\d+)$\<close> at the start of its argument: the
  greedy runs cannot give anything back, since \<^verbatim>\<open>x\<close> is no white space and the end of
  input is no digit. \<open>spamScan\<close> is the lazy group \<^verbatim>\<open>(.+?)\<close>: it grows one character at a
  time, never over a line terminator, and stops at the first length where the tail
  matches. The result is the pair of the two capture groups.
\<close>

definition matchSpamTail :: "string \<Rightarrow> string option" where
  "matchSpamTail rest =
     (case dropWhile isWhiteSpace rest of
        [] \<Rightarrow> None
      | c # ds \<Rightarrow>
          if takeWhile isWhiteSpace rest \<noteq> [] \<and> c = CHR ''x'' \<and> ds \<noteq> [] \<and> list_all isDigit ds
          then Some ds else None)"

fun spamScan :: "string \<Rightarrow> string \<Rightarrow> (string \<times> string) option" where
  "spamScan group1 [] = None"
| "spamScan group1 (c # rest) =
     (if isLineTerminator c then None
      else (case matchSpamTail rest of
              Some ds \<Rightarrow> Some (group1 @ [c], ds)
            | None \<Rightarrow> spamScan (group1 @ [c]) rest))"

definition spamMatch :: "string \<Rightarrow> (string \<times> string) option" where
  "spamMatch s = spamScan [] s"

text \<open>
  \<open>parseCommand raw allowCommandSpam\<close>; a call without options, as the queue consumer
  makes it, is \<open>allowCommandSpam = False\<close>. The null result is \<open>None\<close>.
\<close>

function parseCommand :: "string \<Rightarrow> bool \<Rightarrow> ParsedCommand option" where
  "parseCommand raw allowCommandSpam =
     (let normalizedRaw = normalizeCommand raw in
      if normalizedRaw = [] then None
      else
        (case spamMatch normalizedRaw of
           Some (commandRaw, repeatRaw) \<Rightarrow>
             if \<not> allowCommandSpam then None
             else
               (let repeatCount = parseInt repeatRaw in
                if repeatCount < 2 \<or> repeatCount > MAX_COMMAND_SPAM_REPEAT then None
                else
                  (case parseCommand commandRaw False of
                     None \<Rightarrow> None
                   | Some baseCommand \<Rightarrow>
                       Some \<lparr>buttons = buttons baseCommand,
                             durationMs = durationMs baseCommand,
                             normalized = normalized baseCommand,
                             repeatCount = repeatCount\<rparr>))
         | None \<Rightarrow>
             (let isExtendedHold = endsWith normalizedRaw ''-'';
                  base = (if isExtendedHold then trim (butlast normalizedRaw)
                          else normalizedRaw)
              in
              if base = [] then None
              else
                (let buttons = map trim (split_str (CHR ''+'') base) in
                 if length buttons = 0 \<or> length buttons > 2 then None
                 else if \<not> list_all (\<lambda>button. button \<noteq> [] \<and> button \<in> set SUPPORTED_COMMANDS)
                              buttons
                 then None
                 else
                   Some \<lparr>buttons = buttons,
                         durationMs = (if isExtendedHold then LONG_KEYPRESS_DURATION_MS
                                       else KEYPRESS_DURATION_MS),
                         normalized = join ''+'' buttons @ (if isExtendedHold then ''-'' else ''''),
                         repeatCount = 1\<rparr>))))"
  by pat_completeness auto
termination
  by (relation "measure (\<lambda>(raw, allowCommandSpam). if allowCommandSpam then 1 else 0)") auto

declare parseCommand.simps [simp del]

text \<open>
  The combo form as the specification words it: the parts that \<open>split\<close> returns are
  themselves looked up in the vocabulary. It is compared with \<open>parseCommand\<close> below.
\<close>

definition specComboAccepts :: "string \<Rightarrow> bool" where
  "specComboAccepts raw =
     (let s = normalizeCommand raw;
          rest = (if endsWith s ''-'' then butlast s else s);
          parts = split_str (CHR ''+'') rest
      in (length parts = 1 \<or> length parts = 2) \<and>
         list_all (\<lambda>part. part \<noteq> [] \<and> part \<in> set SUPPORTED_COMMANDS) parts)"

text \<open>Two predicates on characters, used to reason about the strings the parser emits.\<close>

definition isButtonLetter :: "char \<Rightarrow> bool" where
  "isButtonLetter c = (c \<in> set ''abcdefghijklmnopqrstuvwxyz'')"

definition isStable :: "char \<Rightarrow> bool" where
  "isStable c = (\<not> isWhiteSpace c \<and> toLowerChar c = c)"

section \<open>Chatter activity tracker\<close>

text \<open>
  \<open>chatterActivity\<close> is an array of \<^verbatim>\<open>{ did, createdAt }\<close>; timestamps are the integer
  milliseconds of \<^verbatim>\<open>Date.now()\<close>. The functions take the array and return it as they
  leave it.
\<close>

record ChatterEntry =
  entryDid :: string
  entryCreatedAt :: int

definition CHATTER_WINDOW_MS :: int where
  "CHATTER_WINDOW_MS = 10 * 60 * 1000"

definition MIN_UNIQUE_CHATTERS_FOR_NO_SPAM :: nat where
  "MIN_UNIQUE_CHATTERS_FOR_NO_SPAM = 3"

text \<open>The \<^verbatim>\<open>while (true)\<close> loop of \<open>countUniqueChattersInWindow\<close>: shift while the first
  entry is older than the cutoff.\<close>

fun evictExpired :: "int \<Rightarrow> ChatterEntry list \<Rightarrow> ChatterEntry list" where
  "evictExpired cutoff [] = []"
| "evictExpired cutoff (first # rest) =
     (if entryCreatedAt first \<ge> cutoff then first # rest else evictExpired cutoff rest)"

definition countUniqueChattersInWindow ::
    "int \<Rightarrow> ChatterEntry list \<Rightarrow> nat \<times> ChatterEntry list" where
  "countUniqueChattersInWindow now chatterActivity =
     (let cutoff = now - CHATTER_WINDOW_MS;
          remaining = evictExpired cutoff chatterActivity
      in (length (remdups (map entryDid remaining)), remaining))"

definition recordChatterAndCountUnique ::
    "string \<Rightarrow> int \<Rightarrow> ChatterEntry list \<Rightarrow> nat \<times> ChatterEntry list" where
  "recordChatterAndCountUnique did now chatterActivity =
     countUniqueChattersInWindow now
       (chatterActivity @ [\<lparr>entryDid = did, entryCreatedAt = now\<rparr>])"

text \<open>The \<open>spamAbility\<close> object that \<open>snapshot\<close> builds, with the array as the call
  leaves it.\<close>

record SpamAbility =
  enabled :: bool
  uniqueChatters :: nat
  threshold :: nat
  windowMinutes :: int

definition snapshotSpamAbility ::
    "int \<Rightarrow> ChatterEntry list \<Rightarrow> SpamAbility \<times> ChatterEntry list" where
  "snapshotSpamAbility now chatterActivity =
     (case countUniqueChattersInWindow now chatterActivity of
        (unique, remaining) \<Rightarrow>
          (\<lparr>enabled = unique < MIN_UNIQUE_CHATTERS_FOR_NO_SPAM,
            uniqueChatters = unique,
            threshold = MIN_UNIQUE_CHATTERS_FOR_NO_SPAM,
            windowMinutes = CHATTER_WINDOW_MS div (60 * 1000)\<rparr>, remaining))"

text \<open>
  The calls that reach the tracker, each with the time it is given: the main loop records
  a chatter, a snapshot only reads.
\<close>

datatype TrackerCall = Record string int | Read int


fun trackerCall :: "ChatterEntry list \<Rightarrow> TrackerCall \<Rightarrow> ChatterEntry list" where
  "trackerCall chatterActivity (Record did now) =
     snd (recordChatterAndCountUnique did now chatterActivity)"
| "trackerCall chatterActivity (Read now) =
     snd (snapshotSpamAbility now chatterActivity)"

definition trackerRun :: "TrackerCall list \<Rightarrow> ChatterEntry list" where
  "trackerRun calls = foldl trackerCall [] calls"



section \<open>Identity cache\<close>

record ResolvedIdentity =
  identityDid :: string
  identityHandle :: "string option"
  displayName :: "string option"
  identityAvatarUrl :: "string option"

definition IDENTITY_CACHE_TTL_MS :: int where
  "IDENTITY_CACHE_TTL_MS = 15 * 60 * 1000"

text \<open>
  The state \<open>hydrateIdentity\<close> works on: the cache, the keys of \<open>pendingIdentityLookups\<close>,
  and two logs of what left the component: the calls of \<open>fetchIdentityFromSlingshot\<close> that
  were started and the identities handed to \<open>applyIdentityToOverlay\<close>.
\<close>

record IdentityState =
  identityCache :: "string \<Rightarrow> (ResolvedIdentity \<times> int) option"
  pendingIdentityLookups :: "string set"
  startedLookups :: "string list"
  appliedIdentities :: "ResolvedIdentity list"

definition hydrateIdentity :: "string \<Rightarrow> int \<Rightarrow> IdentityState \<Rightarrow> IdentityState" where
  "hydrateIdentity did now s =
     (case identityCache s did of
        Some (identity, expiresAt) \<Rightarrow>
          if expiresAt > now then s\<lparr>appliedIdentities := appliedIdentities s @ [identity]\<rparr>
          else if did \<in> pendingIdentityLookups s then s
          else s\<lparr>startedLookups := startedLookups s @ [did],
                 pendingIdentityLookups := insert did (pendingIdentityLookups s)\<rparr>
      | None \<Rightarrow>
          if did \<in> pendingIdentityLookups s then s
          else s\<lparr>startedLookups := startedLookups s @ [did],
                 pendingIdentityLookups := insert did (pendingIdentityLookups s)\<rparr>)"

text \<open>
  How a started lookup settles: with an identity, with nothing (\<open>null\<close>), or with an
  error that \<open>catch\<close> turns into \<open>null\<close>. \<open>finally\<close> removes the marker in each case.
\<close>

datatype LookupOutcome = Resolved ResolvedIdentity | Empty | Failed

definition lookupSettled ::
    "string \<Rightarrow> LookupOutcome \<Rightarrow> int \<Rightarrow> IdentityState \<Rightarrow> IdentityState" where
  "lookupSettled did outcome now s =
     (let s1 = (case outcome of
                  Resolved identity \<Rightarrow>
                    s\<lparr>identityCache := (identityCache s)
                         (did := Some (identity, now + IDENTITY_CACHE_TTL_MS)),
                      appliedIdentities := appliedIdentities s @ [identity]\<rparr>
                | Empty \<Rightarrow> s
                | Failed \<Rightarrow> s)
      in s1\<lparr>pendingIdentityLookups := pendingIdentityLookups s1 - {did}\<rparr>)"

definition cacheLocalIdentity :: "ResolvedIdentity \<Rightarrow> int \<Rightarrow> IdentityState \<Rightarrow> IdentityState" where
  "cacheLocalIdentity identity now s =
     s\<lparr>identityCache := (identityCache s)
          (identityDid identity := Some (identity, now + IDENTITY_CACHE_TTL_MS)),
       appliedIdentities := appliedIdentities s @ [identity]\<rparr>"

datatype IdentityEvent =
    Hydrate string int
  | LookupSettled string LookupOutcome int
  | CacheLocal ResolvedIdentity int

fun identityStep :: "IdentityState \<Rightarrow> IdentityEvent \<Rightarrow> IdentityState" where
  "identityStep s (Hydrate did now) = hydrateIdentity did now s"
| "identityStep s (LookupSettled did outcome now) = lookupSettled did outcome now s"
| "identityStep s (CacheLocal identity now) = cacheLocalIdentity identity now s"

definition identityRun :: "IdentityEvent list \<Rightarrow> IdentityState \<Rightarrow> IdentityState" where
  "identityRun events s = foldl identityStep s events"

fun settles :: "string \<Rightarrow> IdentityEvent \<Rightarrow> bool" where
  "settles did (LookupSettled did' outcome now) = (did' = did)"
| "settles did (Hydrate did' now) = False"
| "settles did (CacheLocal identity now) = False"

definition cachedIdentityForDid :: "string \<Rightarrow> int \<Rightarrow> IdentityState \<Rightarrow> ResolvedIdentity option" where
  "cachedIdentityForDid d now s =
     (case identityCache s d of
        None \<Rightarrow> None
      | Some (identity, expiresAt) \<Rightarrow> if expiresAt \<le> now then None else Some identity)"

definition initialIdentityState :: IdentityState where
  "initialIdentityState =
     \<lparr>identityCache = (\<lambda>d. None), pendingIdentityLookups = {},
      startedLookups = [], appliedIdentities = []\<rparr>"

section \<open>Command queue\<close>

definition MAX_QUEUE_ITEMS :: nat where
  "MAX_QUEUE_ITEMS = 40"

datatype QueueStatus = Queued | Active | Done | Error

record QueueItem =
  itemId :: string
  did :: string
  user :: string
  handle :: "string option"
  avatarUrl :: "string option"
  command :: string
  status :: QueueStatus
  createdAt :: int

definition shortenDid :: "string \<Rightarrow> string" where
  "shortenDid d =
     (if length d \<le> 18 then d else take 10 d @ ''...'' @ drop (length d - 5) d)"

definition formatHandle :: "string \<Rightarrow> string" where
  "formatHandle h =
     CHR ''@'' # (case h of [] \<Rightarrow> h | c # rest \<Rightarrow> if c = CHR ''@'' then rest else h)"

definition queueLabelForIdentity :: "ResolvedIdentity \<Rightarrow> string \<Rightarrow> string" where
  "queueLabelForIdentity identity fallbackDid =
     (case identityHandle identity of
        None \<Rightarrow> shortenDid fallbackDid
      | Some h \<Rightarrow> if trim h \<noteq> [] then formatHandle (trim h) else shortenDid fallbackDid)"

text \<open>
  What \<open>buildQueueItem\<close> reads from outside the queue: the id string it formats from the
  clock and the random generator, the clock for \<open>createdAt\<close>, and the answer of
  \<open>cachedIdentityForDid\<close>.
\<close>

record ItemEnv =
  envId :: string
  envNow :: int
  envCachedIdentity :: "ResolvedIdentity option"

definition buildQueueItem :: "string \<Rightarrow> string \<Rightarrow> ItemEnv \<Rightarrow> QueueItem" where
  "buildQueueItem cmd d env =
     \<lparr>itemId = envId env,
      did = d,
      user = (case envCachedIdentity env of
                None \<Rightarrow> shortenDid d
              | Some cachedIdentity \<Rightarrow> queueLabelForIdentity cachedIdentity d),
      handle = (case envCachedIdentity env of
                  None \<Rightarrow> None
                | Some cachedIdentity \<Rightarrow> identityHandle cachedIdentity),
      avatarUrl = (case envCachedIdentity env of
                     None \<Rightarrow> None
                   | Some cachedIdentity \<Rightarrow> identityAvatarUrl cachedIdentity),
      command = cmd,
      status = Queued,
      createdAt = envNow env\<rparr>"

text \<open>
  Queue items are objects that the array, the consumer's local \<open>next\<close> and the identity
  patch all reach by reference. The store \<open>heap\<close> maps a reference to the object;
  references are handed out in creation order by the counter \<open>allocated\<close>, and
  \<open>commandQueue\<close> is the array of references.

  \<open>processQueue\<close> is an async function: an activation runs until it awaits, and is then
  a continuation in \<open>consumers\<close>, waiting either for \<open>dispatchMgbaCommand\<close> (with its
  \<open>next\<close>) or for the sleep between commands. The loop of \<open>enqueueCommand\<close> that sleeps
  before each repeat is a \<open>RepeatTask\<close> with its counter \<open>i\<close>.

  Two logs record what leaves the queue: \<open>dispatched\<close>, the calls of
  \<open>dispatchMgbaCommand\<close> (item reference, buttons, duration), and \<open>snapshots\<close>, the queue
  part of what each \<open>broadcast\<close> sends.
\<close>

datatype Continuation = AwaitDispatch nat | AwaitSleep

record RepeatTask =
  repeatCommand :: ParsedCommand
  repeatDid :: string
  repeatIndex :: nat

record OverlaySnapshot =
  snapshotQueue :: "QueueItem list"
  snapshotActiveCommandId :: "string option"

record QueueState =
  heap :: "nat \<Rightarrow> QueueItem"
  allocated :: nat
  commandQueue :: "nat list"
  activeCommandId :: "string option"
  processingQueue :: bool
  consumers :: "Continuation list"
  repeaters :: "RepeatTask list"
  dispatched :: "(nat \<times> string list \<times> int) list"
  snapshots :: "OverlaySnapshot list"

definition initialQueueState :: QueueState where
  "initialQueueState =
     \<lparr>heap = (\<lambda>r. \<lparr>itemId = [], did = [], user = [], handle = None, avatarUrl = None,
                     command = [], status = Queued, createdAt = 0\<rparr>),
      allocated = 0,
      commandQueue = [],
      activeCommandId = None,
      processingQueue = False,
      consumers = [],
      repeaters = [],
      dispatched = [],
      snapshots = []\<rparr>"

definition broadcast :: "QueueState \<Rightarrow> QueueState" where
  "broadcast s =
     s\<lparr>snapshots := snapshots s @
          [\<lparr>snapshotQueue = map (heap s) (commandQueue s),
            snapshotActiveCommandId = activeCommandId s\<rparr>]\<rparr>"

definition trimQueue :: "QueueState \<Rightarrow> QueueState" where
  "trimQueue s =
     (if length (commandQueue s) \<le> MAX_QUEUE_ITEMS then s
      else (let overflow = length (commandQueue s) - MAX_QUEUE_ITEMS
            in s\<lparr>commandQueue := drop overflow (commandQueue s)\<rparr>))"

text \<open>\<open>next.status = st\<close> for the object at reference \<open>r\<close>.\<close>

definition setStatus :: "nat \<Rightarrow> QueueStatus \<Rightarrow> QueueState \<Rightarrow> QueueState" where
  "setStatus r st s = s\<lparr>heap := (heap s)(r := (heap s r)\<lparr>status := st\<rparr>)\<rparr>"

text \<open>\<^verbatim>\<open>commandQueue.find((item) => item.status === "queued")\<close>\<close>

definition selectNext :: "QueueState \<Rightarrow> nat option" where
  "selectNext s = find (\<lambda>r. status (heap s r) = Queued) (commandQueue s)"

text \<open>
  The \<^verbatim>\<open>while (true)\<close> loop of \<open>processQueue\<close> from the top of an iteration to the point
  where the activation awaits the dispatch, or returns through \<open>finally\<close>.
\<close>

function processLoop :: "QueueState \<Rightarrow> QueueState" where
  "processLoop s =
     (case selectNext s of
        None \<Rightarrow> (broadcast (s\<lparr>activeCommandId := None\<rparr>))\<lparr>processingQueue := False\<rparr>
      | Some next \<Rightarrow>
          (case parseCommand (command (heap s next)) False of
             None \<Rightarrow> processLoop (broadcast (setStatus next Error s))
           | Some parsedCommand \<Rightarrow>
               (let s1 = broadcast ((setStatus next Active s)
                           \<lparr>activeCommandId := Some (itemId (heap s next))\<rparr>)
                in s1\<lparr>dispatched := dispatched s1 @
                         [(next, buttons parsedCommand, durationMs parsedCommand)],
                       consumers := consumers s1 @ [AwaitDispatch next]\<rparr>)))"
  by pat_completeness auto
termination
proof (relation "measure (\<lambda>s. length (filter (\<lambda>r. status (heap s r) = Queued) (commandQueue s)))")
  show "wf (measure (\<lambda>s. length (filter (\<lambda>r. status (heap s r) = Queued) (commandQueue s))))"
    by simp
next
  fix s :: QueueState and nxt
  assume sel: "selectNext s = Some nxt"
  let ?s' = "broadcast (setStatus nxt Error s)"
  from sel have mem: "nxt \<in> set (commandQueue s)" and q: "status (heap s nxt) = Queued"
    by (auto simp: selectNext_def find_Some_iff)
  have eq: "filter (\<lambda>r. status (heap ?s' r) = Queued) (commandQueue ?s')
      = filter (\<lambda>r. r \<noteq> nxt) (filter (\<lambda>r. status (heap s r) = Queued) (commandQueue s))"
    by (auto simp: broadcast_def setStatus_def intro!: filter_cong)
  have "nxt \<in> set (filter (\<lambda>r. status (heap s r) = Queued) (commandQueue s))"
    using mem q by simp
  then have "length (filter (\<lambda>r. r \<noteq> nxt) (filter (\<lambda>r. status (heap s r) = Queued) (commandQueue s)))
      < length (filter (\<lambda>r. status (heap s r) = Queued) (commandQueue s))"
    by (intro length_filter_less) auto
  with eq show "(?s', s) \<in> measure
      (\<lambda>s. length (filter (\<lambda>r. status (heap s r) = Queued) (commandQueue s)))"
    by simp
qed

definition processQueue :: "QueueState \<Rightarrow> QueueState" where
  "processQueue s =
     (if processingQueue s then s else processLoop (s\<lparr>processingQueue := True\<rparr>))"

definition enqueueSingleCommand :: "string \<Rightarrow> string \<Rightarrow> ItemEnv \<Rightarrow> QueueState \<Rightarrow> QueueState" where
  "enqueueSingleCommand cmd d env s =
     processQueue (broadcast (trimQueue
       (s\<lparr>heap := (heap s)(allocated s := buildQueueItem cmd d env),
          allocated := Suc (allocated s),
          commandQueue := commandQueue s @ [allocated s]\<rparr>)))"

text \<open>
  \<open>enqueueCommand\<close> up to the first \<open>await\<close> of its repeat loop: the loop starts with
  \<open>i = 1\<close>, and with \<open>repeatCount > 1\<close> its first test passes and it sleeps.
\<close>

definition enqueueCommand :: "ParsedCommand \<Rightarrow> string \<Rightarrow> ItemEnv \<Rightarrow> QueueState \<Rightarrow> QueueState" where
  "enqueueCommand cmd d env s =
     (let s1 = enqueueSingleCommand (normalized cmd) d env s
      in if repeatCount cmd \<le> 1 then s1
         else s1\<lparr>repeaters := repeaters s1 @
                   [\<lparr>repeatCommand = cmd, repeatDid = d, repeatIndex = 1\<rparr>]\<rparr>)"

text \<open>The \<open>k\<close>-th sleeping repeat loop wakes: it enqueues, increments \<open>i\<close>, and sleeps
  again or ends.\<close>

definition repeatWake :: "nat \<Rightarrow> ItemEnv \<Rightarrow> QueueState \<Rightarrow> QueueState" where
  "repeatWake k env s =
     (if k < length (repeaters s)
      then (let task = repeaters s ! k;
                s1 = enqueueSingleCommand (normalized (repeatCommand task)) (repeatDid task) env s;
                i = repeatIndex task + 1
            in if i < repeatCount (repeatCommand task)
               then s1\<lparr>repeaters := (repeaters s1)[k := task\<lparr>repeatIndex := i\<rparr>]\<rparr>
               else s1\<lparr>repeaters := take k (repeaters s1) @ drop (Suc k) (repeaters s1)\<rparr>)
      else s)"

text \<open>
  The dispatch awaited by the \<open>k\<close>-th activation settles, fulfilled (\<open>ok\<close>) or rejected:
  the activation sets the status, clears the marker, broadcasts and sleeps.
\<close>

definition dispatchSettled :: "nat \<Rightarrow> bool \<Rightarrow> QueueState \<Rightarrow> QueueState" where
  "dispatchSettled k ok s =
     (if k < length (consumers s)
      then (case consumers s ! k of
              AwaitSleep \<Rightarrow> s
            | AwaitDispatch next \<Rightarrow>
                (let s1 = broadcast ((setStatus next (if ok then Done else Error) s)
                            \<lparr>activeCommandId := None\<rparr>)
                 in s1\<lparr>consumers := (consumers s1)[k := AwaitSleep]\<rparr>))
      else s)"

text \<open>The sleep of the \<open>k\<close>-th activation ends: it goes round the loop.\<close>

definition sleepDone :: "nat \<Rightarrow> QueueState \<Rightarrow> QueueState" where
  "sleepDone k s =
     (if k < length (consumers s) \<and> consumers s ! k = AwaitSleep
      then processLoop (s\<lparr>consumers := take k (consumers s) @ drop (Suc k) (consumers s)\<rparr>)
      else s)"

text \<open>
  The queue half of \<open>applyIdentityToOverlay\<close>. \<open>chatChanged\<close> is the value of \<open>changed\<close>
  after the loop over the chat messages, which are not part of this state.
\<close>

definition patchItem :: "ResolvedIdentity \<Rightarrow> QueueItem \<Rightarrow> QueueItem" where
  "patchItem identity item =
     (if did item \<noteq> identityDid identity then item
      else (let label = queueLabelForIdentity identity (identityDid identity)
            in if user item \<noteq> label \<or> handle item \<noteq> identityHandle identity \<or>
                  avatarUrl item \<noteq> identityAvatarUrl identity
               then item\<lparr>user := label, handle := identityHandle identity,
                         avatarUrl := identityAvatarUrl identity\<rparr>
               else item))"

definition applyIdentityToOverlay :: "ResolvedIdentity \<Rightarrow> bool \<Rightarrow> QueueState \<Rightarrow> QueueState" where
  "applyIdentityToOverlay identity chatChanged s =
     (let changed = (chatChanged \<or>
            list_ex (\<lambda>r. patchItem identity (heap s r) \<noteq> heap s r) (commandQueue s));
          s1 = s\<lparr>heap := (\<lambda>r. if r \<in> set (commandQueue s) then patchItem identity (heap s r)
                               else heap s r)\<rparr>
      in if changed then broadcast s1 else s1)"

text \<open>
  The events of the single-threaded event loop that touch the queue. \<open>Message\<close> is the
  tail of the main loop's body for a chat record: parse with the gate's flag, and enqueue
  when the parser accepts. The other events are the wake-ups of suspended code, the
  identity patch, and a broadcast made elsewhere (\<open>pushChatMessage\<close>).
\<close>

datatype QueueEvent =
    Message string bool string ItemEnv
  | RepeatWake nat ItemEnv
  | DispatchSettled nat bool
  | SleepDone nat
  | ApplyIdentity ResolvedIdentity bool
  | Broadcast

fun queueStep :: "QueueState \<Rightarrow> QueueEvent \<Rightarrow> QueueState" where
  "queueStep s (Message text allowCommandSpam d env) =
     (case parseCommand text allowCommandSpam of
        None \<Rightarrow> s
      | Some parsedCommand \<Rightarrow> enqueueCommand parsedCommand d env s)"
| "queueStep s (RepeatWake k env) = repeatWake k env s"
| "queueStep s (DispatchSettled k ok) = dispatchSettled k ok s"
| "queueStep s (SleepDone k) = sleepDone k s"
| "queueStep s (ApplyIdentity identity chatChanged) = applyIdentityToOverlay identity chatChanged s"
| "queueStep s Broadcast = broadcast s"

definition queueRun :: "QueueEvent list \<Rightarrow> QueueState \<Rightarrow> QueueState" where
  "queueRun events s = foldl queueStep s events"

definition activeCount :: "QueueItem list \<Rightarrow> nat" where
  "activeCount items = length (filter (\<lambda>item. status item = Active) items)"

section \<open>Properties of the parser\<close>

lemma plus_not_ws: "\<not> isWhiteSpace (CHR ''+'')" by (simp add: isWhiteSpace_def)

lemma trim_ws_Cons: "isWhiteSpace c \<Longrightarrow> trim (c # s) = trim s"
  by (simp add: trim_def)

lemma trim_snoc_ws:
  assumes "isWhiteSpace c"
  shows "trim (s @ [c]) = trim s"
proof (cases "\<forall>x\<in>set s. isWhiteSpace x")
  case True
  then have a: "dropWhile isWhiteSpace s = []" by simp
  have "dropWhile isWhiteSpace (s @ [c]) = dropWhile isWhiteSpace [c]"
    using True by (intro dropWhile_append2) simp
  then have b: "dropWhile isWhiteSpace (s @ [c]) = []" using assms by simp
  show ?thesis unfolding trim_def a b by (rule refl)
next
  case False
  then obtain x where "x \<in> set s" "\<not> isWhiteSpace x" by blast
  then have "dropWhile isWhiteSpace (s @ [c]) = dropWhile isWhiteSpace s @ [c]"
    by (rule dropWhile_append1)
  then show ?thesis using assms by (simp add: trim_def)
qed

lemma trim_append_ws: "list_all isWhiteSpace w \<Longrightarrow> trim (s @ w) = trim s"
proof (induction w rule: rev_induct)
  case Nil
  then show ?case by simp
next
  case (snoc c w)
  then have "trim ((s @ w) @ [c]) = trim (s @ w)"
    by (intro trim_snoc_ws) simp
  with snoc show ?case by simp
qed

lemma trim_dropWhile: "trim (dropWhile isWhiteSpace s) = trim s"
  by (simp add: trim_def)

lemma split_str_not_Nil: "split_str sep s \<noteq> []"
  by (induction s) (auto split: list.splits)

lemma split_str_no_sep: "sep \<notin> set w \<Longrightarrow> split_str sep w = [w]"
  by (induction w) auto

lemma split_str_append_no_sep:
  "sep \<notin> set w \<Longrightarrow>
   split_str sep (y @ w) = butlast (split_str sep y) @ [last (split_str sep y) @ w]"
proof (induction y)
  case Nil
  then show ?case by (simp add: split_str_no_sep)
next
  case (Cons c cs)
  then show ?case
    using split_str_not_Nil [of sep cs]
    by (cases "split_str sep cs") (auto split: list.splits)
qed

lemma map_trim_split_append_ws:
  assumes "list_all isWhiteSpace w" "\<not> isWhiteSpace sep"
  shows "map trim (split_str sep (y @ w)) = map trim (split_str sep y)"
proof -
  have "sep \<notin> set w" using assms by (auto simp: list_all_iff)
  then have "split_str sep (y @ w) = butlast (split_str sep y) @ [last (split_str sep y) @ w]"
    by (rule split_str_append_no_sep)
  then have "map trim (split_str sep (y @ w))
      = map trim (butlast (split_str sep y)) @ [trim (last (split_str sep y))]"
    using assms(1) by (simp add: trim_append_ws)
  also have "\<dots> = map trim (butlast (split_str sep y) @ [last (split_str sep y)])"
    by simp
  also have "\<dots> = map trim (split_str sep y)"
    using split_str_not_Nil [of sep y] by simp
  finally show ?thesis .
qed

lemma map_trim_split_dropWhile:
  assumes "\<not> isWhiteSpace sep"
  shows "map trim (split_str sep (dropWhile isWhiteSpace x)) = map trim (split_str sep x)"
proof (induction x)
  case Nil
  then show ?case by simp
next
  case (Cons c cs)
  show ?case
  proof (cases "isWhiteSpace c")
    case True
    then have "c \<noteq> sep" using assms by auto
    then show ?thesis
      using True Cons split_str_not_Nil [of sep cs]
      by (cases "split_str sep cs") (simp_all add: trim_ws_Cons)
  next
    case False
    then show ?thesis by simp
  qed
qed

lemma map_trim_split_trim:
  assumes "\<not> isWhiteSpace sep"
  shows "map trim (split_str sep (trim x)) = map trim (split_str sep x)"
proof -
  define x' where "x' = dropWhile isWhiteSpace x"
  define w where "w = rev (takeWhile isWhiteSpace (rev x'))"
  have w: "list_all isWhiteSpace w"
    by (auto simp: w_def list_all_iff dest: set_takeWhileD)
  have "rev (rev x') = rev (takeWhile isWhiteSpace (rev x') @ dropWhile isWhiteSpace (rev x'))"
    by (simp only: takeWhile_dropWhile_id)
  then have "x' = rev (dropWhile isWhiteSpace (rev x')) @ rev (takeWhile isWhiteSpace (rev x'))"
    by (simp only: rev_append rev_rev_ident)
  then have x': "x' = trim x @ w"
    by (simp only: trim_def w_def x'_def)
  have "map trim (split_str sep (trim x)) = map trim (split_str sep (trim x @ w))"
    using map_trim_split_append_ws [OF w assms] by simp
  also have "\<dots> = map trim (split_str sep x')" using x' by simp
  also have "\<dots> = map trim (split_str sep x)"
    unfolding x'_def by (rule map_trim_split_dropWhile [OF assms])
  finally show ?thesis .
qed


lemmas string_evals =
  normalizeCommand_def toLowerCase_def toLowerChar_def upperCaseLetters_def lowerCaseLetters_def
  trim_def isWhiteSpace_def isLineTerminator_def isDigit_def endsWith_def
  spamMatch_def matchSpamTail_def SUPPORTED_COMMANDS_def parseInt_def MAX_COMMAND_SPAM_REPEAT_def

lemma one_or_two_parts:
  "(xs = [] \<or> 2 < length xs) = (\<not> (length xs = Suc 0 \<or> length xs = 2))"
  using length_0_conv [of xs] by arith

lemma parseCommand_combo_eq:
  assumes "spamMatch (normalizeCommand raw) = None"
  shows "parseCommand raw allowCommandSpam =
     (let s = normalizeCommand raw;
          hold = endsWith s ''-'';
          parts = map trim (split_str (CHR ''+'') (if hold then butlast s else s))
      in if (length parts = 1 \<or> length parts = 2) \<and>
            list_all (\<lambda>part. part \<noteq> [] \<and> part \<in> set SUPPORTED_COMMANDS) parts
         then Some \<lparr>buttons = parts,
                    durationMs = (if hold then LONG_KEYPRESS_DURATION_MS
                                  else KEYPRESS_DURATION_MS),
                    normalized = join ''+'' parts @ (if hold then ''-'' else ''''),
                    repeatCount = 1\<rparr>
         else None)"
proof -
  let ?s = "normalizeCommand raw"
  have split_trim: "map trim (split_str (CHR ''+'') (trim x)) = map trim (split_str (CHR ''+'') x)"
    for x by (rule map_trim_split_trim [OF plus_not_ws])
  have len: "length (map trim (split_str (CHR ''+'') x)) \<noteq> 0" for x
    using split_str_not_Nil [of "CHR ''+''" x] by simp
  show ?thesis
  proof (cases "?s = []")
    case True
    then show ?thesis
      by (subst parseCommand.simps) (simp add: endsWith_def trim_def)
  next
    case nonempty: False
    show ?thesis
    proof (cases "endsWith ?s ''-''")
      case False
      then show ?thesis
        using nonempty assms
        by (subst parseCommand.simps) (simp add: Let_def one_or_two_parts)
    next
      case hold: True
      show ?thesis
      proof (cases "trim (butlast ?s) = []")
        case True
        have "map trim (split_str (CHR ''+'') (butlast ?s))
            = map trim (split_str (CHR ''+'') (trim (butlast ?s)))"
          by (simp only: split_trim)
        also have "\<dots> = [trim []]"
          by (simp only: True split_str.simps list.map)
        also have "\<dots> = [[]]"
          by (simp add: trim_def)
        finally have "map trim (split_str (CHR ''+'') (butlast ?s)) = [[]]" .
        then show ?thesis
          using nonempty assms hold True
          by (subst parseCommand.simps) (simp add: Let_def one_or_two_parts)
      next
        case False
        then show ?thesis
          using nonempty assms hold
          by (subst parseCommand.simps) (simp add: Let_def split_trim one_or_two_parts)
      qed
    qed
  qed
qed

text \<open>
  Claim C4, as the code has it. For every input whose normalized text does not match the
  repeat-suffix pattern: after trimming, lowercasing and stripping one trailing \<open>-\<close>
  (which selects the long duration), \<open>parseCommand\<close> splits the remainder on \<open>+\<close>, trims
  the white space around each part, and succeeds if and only if there are 1 or 2 parts and
  each trimmed part is a non-empty member of the 10-symbol vocabulary. More than 2 parts
  is a rejection with or without the hold suffix. On success the buttons are the trimmed
  parts, and \<open>normalized\<close> is the buttons joined by \<open>+\<close>, with \<open>-\<close> appended when the hold
  suffix was present.
\<close>

theorem parseCommand_combo_form:
  assumes "spamMatch (normalizeCommand raw) = None"
  shows "parseCommand raw allowCommandSpam =
     (let s = normalizeCommand raw;
          hold = endsWith s ''-'';
          parts = map trim (split_str (CHR ''+'') (if hold then butlast s else s))
      in if (length parts = 1 \<or> length parts = 2) \<and>
            list_all (\<lambda>part. part \<noteq> [] \<and> part \<in> set SUPPORTED_COMMANDS) parts
         then Some \<lparr>buttons = parts,
                    durationMs = (if hold then LONG_KEYPRESS_DURATION_MS
                                  else KEYPRESS_DURATION_MS),
                    normalized = join ''+'' parts @ (if hold then ''-'' else ''''),
                    repeatCount = 1\<rparr>
         else None)"
  using assms by (rule parseCommand_combo_eq)

theorem parseCommand_combo_form_witness:
  "spamMatch (normalizeCommand ''b+right-'') = None \<and>
   parseCommand ''b+right-'' False =
     Some \<lparr>buttons = [''b'', ''right''], durationMs = LONG_KEYPRESS_DURATION_MS,
           normalized = ''b+right-'', repeatCount = 1\<rparr> \<and>
   spamMatch (normalizeCommand ''a+b+left'') = None \<and>
   parseCommand ''a+b+left'' False = None"
proof -
  have h1: "spamMatch (normalizeCommand ''b+right-'') = None"
    and h2: "spamMatch (normalizeCommand ''a+b+left'') = None"
    by (simp_all add: string_evals)
  show ?thesis
    using parseCommand_combo_form [OF h1, of False] parseCommand_combo_form [OF h2, of False] h1 h2
    by (simp add: string_evals)
qed

text \<open>
  The claim as the specification words it fails: the parts of \<open>a + b\<close> are \<open>a\<close> with a
  space after it and \<open>b\<close> with a space before it, neither of them a word of the
  vocabulary, and the parser accepts the input all the same, since it trims each part.
\<close>

theorem parseCommand_untrimmed_parts_counterexample:
  "spamMatch (normalizeCommand ''a + b'') = None \<and>
   \<not> specComboAccepts ''a + b'' \<and>
   parseCommand ''a + b'' False =
     Some \<lparr>buttons = [''a'', ''b''], durationMs = KEYPRESS_DURATION_MS,
           normalized = ''a+b'', repeatCount = 1\<rparr>"
  by (subst parseCommand.simps) (simp add: string_evals specComboAccepts_def)






lemma matchSpamTail_SomeD:
  assumes "matchSpamTail rest = Some digits"
  shows "\<exists>ws. rest = ws @ CHR ''x'' # digits \<and> ws \<noteq> [] \<and> list_all isWhiteSpace ws \<and>
              digits \<noteq> [] \<and> list_all isDigit digits"
proof -
  let ?ws = "takeWhile isWhiteSpace rest"
  from assms have d: "dropWhile isWhiteSpace rest = CHR ''x'' # digits"
    and rest: "?ws \<noteq> []" "digits \<noteq> []" "list_all isDigit digits"
    by (auto simp: matchSpamTail_def split: list.splits if_splits)
  have "rest = ?ws @ dropWhile isWhiteSpace rest" by simp
  then have "rest = ?ws @ CHR ''x'' # digits" using d by simp
  moreover have "list_all isWhiteSpace ?ws"
    by (auto simp: list_all_iff dest: set_takeWhileD)
  ultimately show ?thesis using rest by blast
qed

lemma spamScan_SomeD:
  "spamScan group1 s = Some (g, digits) \<Longrightarrow>
   \<exists>base ws. g = group1 @ base \<and> s = base @ ws @ CHR ''x'' # digits \<and> base \<noteq> [] \<and>
     list_all (\<lambda>c. \<not> isLineTerminator c) base \<and> ws \<noteq> [] \<and> list_all isWhiteSpace ws \<and>
     digits \<noteq> [] \<and> list_all isDigit digits"
proof (induction s arbitrary: group1)
  case Nil
  then show ?case by simp
next
  case (Cons c rest)
  then have c: "\<not> isLineTerminator c" by (auto split: if_splits)
  show ?case
  proof (cases "matchSpamTail rest")
    case (Some ds)
    with Cons.prems c have "g = group1 @ [c]" "ds = digits" by simp_all
    with matchSpamTail_SomeD [OF Some] c show ?thesis by fastforce
  next
    case None
    with Cons.prems c have "spamScan (group1 @ [c]) rest = Some (g, digits)" by simp
    from Cons.IH [OF this] obtain base ws where
      "g = (group1 @ [c]) @ base" "rest = base @ ws @ CHR ''x'' # digits" "base \<noteq> []"
      "list_all (\<lambda>c. \<not> isLineTerminator c) base" "ws \<noteq> []" "list_all isWhiteSpace ws"
      "digits \<noteq> []" "list_all isDigit digits" by blast
    then show ?thesis using c
      by (intro exI [of _ "c # base"] exI [of _ ws]) simp
  qed
qed




lemma letters_stable: "list_all isStable ''abcdefghijklmnopqrstuvwxyz''"
  by (simp add: isStable_def isWhiteSpace_def toLowerChar_def
      upperCaseLetters_def lowerCaseLetters_def)

lemma letter_stable: "isButtonLetter c \<Longrightarrow> isStable c"
  using letters_stable unfolding isButtonLetter_def list_all_iff by blast

lemma letters_not_plus_minus:
  "list_all (\<lambda>c. c \<noteq> CHR ''+'' \<and> c \<noteq> CHR ''-'') ''abcdefghijklmnopqrstuvwxyz''"
  by simp

lemma letter_not_plus: "isButtonLetter c \<Longrightarrow> c \<noteq> CHR ''+''"
  using letters_not_plus_minus unfolding isButtonLetter_def list_all_iff by blast

lemma letter_not_minus: "isButtonLetter c \<Longrightarrow> c \<noteq> CHR ''-''"
  using letters_not_plus_minus unfolding isButtonLetter_def list_all_iff by blast

lemma plus_stable: "isStable (CHR ''+'')"
  by (simp add: isStable_def isWhiteSpace_def toLowerChar_def
      upperCaseLetters_def lowerCaseLetters_def)

lemma minus_stable: "isStable (CHR ''-'')"
  by (simp add: isStable_def isWhiteSpace_def toLowerChar_def
      upperCaseLetters_def lowerCaseLetters_def)

lemma supported_all_letters:
  "list_all (\<lambda>b. b \<noteq> [] \<and> list_all isButtonLetter b) SUPPORTED_COMMANDS"
  by (simp add: SUPPORTED_COMMANDS_def isButtonLetter_def)

lemma supported_letters:
  "b \<in> set SUPPORTED_COMMANDS \<Longrightarrow> b \<noteq> [] \<and> list_all isButtonLetter b"
  using supported_all_letters unfolding list_all_iff by blast

lemma trim_no_ws: "list_all (\<lambda>c. \<not> isWhiteSpace c) s \<Longrightarrow> trim s = s"
proof -
  assume a: "list_all (\<lambda>c. \<not> isWhiteSpace c) s"
  have d: "dropWhile isWhiteSpace t = t" if "list_all (\<lambda>c. \<not> isWhiteSpace c) t" for t
    using that by (cases t) simp_all
  have "list_all (\<lambda>c. \<not> isWhiteSpace c) (rev s)" using a by (simp add: list_all_iff)
  then show ?thesis using a by (simp add: trim_def d)
qed

lemma normalizeCommand_stable:
  assumes "list_all isStable s"
  shows "normalizeCommand s = s"
proof -
  have "list_all (\<lambda>c. \<not> isWhiteSpace c) s"
    using assms by (simp add: list_all_iff isStable_def)
  then have "trim s = s" by (rule trim_no_ws)
  moreover have "map toLowerChar s = s"
    using assms by (induction s) (simp_all add: isStable_def)
  ultimately show ?thesis by (simp add: normalizeCommand_def toLowerCase_def)
qed

lemma matchSpamTail_no_ws:
  "list_all (\<lambda>c. \<not> isWhiteSpace c) rest \<Longrightarrow> matchSpamTail rest = None"
  by (cases rest) (simp_all add: matchSpamTail_def)

lemma spamScan_no_ws:
  "list_all (\<lambda>c. \<not> isWhiteSpace c) s \<Longrightarrow> spamScan group1 s = None"
  by (induction s arbitrary: group1) (simp_all add: matchSpamTail_no_ws)

lemma spamMatch_stable: "list_all isStable s \<Longrightarrow> spamMatch s = None"
  unfolding spamMatch_def
  by (rule spamScan_no_ws) (simp add: list_all_iff isStable_def)

lemma endsWith_snoc: "endsWith (t @ [c]) [c]"
  by (simp add: endsWith_def)

lemma endsWith_last: "endsWith t [c] \<longleftrightarrow> t \<noteq> [] \<and> last t = c"
proof (cases t rule: rev_cases)
  case Nil
  then show ?thesis by (simp add: endsWith_def)
next
  case (snoc ys y)
  then show ?thesis by (auto simp: endsWith_def)
qed

lemma split_str_sep:
  "sep \<notin> set b \<Longrightarrow> split_str sep (b @ sep # rest) = b # split_str sep rest"
  using split_str_not_Nil [of sep rest]
  by (induction b) (auto split: list.splits)


lemma parseCommand_combo_shape:
  assumes none: "spamMatch (normalizeCommand raw) = None"
    and some: "parseCommand raw allowCommandSpam = Some p"
  shows "\<exists>hold. (length (buttons p) = 1 \<or> length (buttons p) = 2) \<and>
           list_all (\<lambda>b. b \<in> set SUPPORTED_COMMANDS) (buttons p) \<and>
           durationMs p = (if hold then LONG_KEYPRESS_DURATION_MS else KEYPRESS_DURATION_MS) \<and>
           normalized p = join ''+'' (buttons p) @ (if hold then ''-'' else '''') \<and>
           repeatCount p = 1"
proof -
  define hold where "hold = endsWith (normalizeCommand raw) ''-''"
  define parts where "parts = map trim (split_str (CHR ''+'')
      (if hold then butlast (normalizeCommand raw) else normalizeCommand raw))"
  define ok where "ok \<longleftrightarrow> (length parts = 1 \<or> length parts = 2) \<and>
      list_all (\<lambda>part. part \<noteq> [] \<and> part \<in> set SUPPORTED_COMMANDS) parts"
  have eq: "parseCommand raw allowCommandSpam =
      (if ok then Some \<lparr>buttons = parts,
                    durationMs = (if hold then LONG_KEYPRESS_DURATION_MS
                                  else KEYPRESS_DURATION_MS),
                    normalized = join ''+'' parts @ (if hold then ''-'' else ''''),
                    repeatCount = 1\<rparr>
       else None)"
    unfolding parseCommand_combo_eq [OF none] Let_def ok_def parts_def hold_def ..
  from some have ok: ok unfolding eq by (cases ok) simp_all
  with some have p: "p = \<lparr>buttons = parts,
                    durationMs = (if hold then LONG_KEYPRESS_DURATION_MS
                                  else KEYPRESS_DURATION_MS),
                    normalized = join ''+'' parts @ (if hold then ''-'' else ''''),
                    repeatCount = 1\<rparr>"
    unfolding eq by simp
  have "list_all (\<lambda>b. b \<in> set SUPPORTED_COMMANDS) parts"
    using ok unfolding ok_def by (simp add: list_all_iff)
  moreover have "length parts = 1 \<or> length parts = 2"
    using ok unfolding ok_def by simp
  ultimately show ?thesis
    unfolding p by (intro exI [of _ hold]) simp
qed

lemma parseCommand_spam_eq:
  assumes "spamMatch (normalizeCommand raw) = Some (commandRaw, repeatRaw)"
  shows "parseCommand raw allowCommandSpam =
      (if normalizeCommand raw = [] \<or> \<not> allowCommandSpam \<or> parseInt repeatRaw < 2 \<or>
          parseInt repeatRaw > MAX_COMMAND_SPAM_REPEAT
       then None
       else (case parseCommand commandRaw False of
               None \<Rightarrow> None
             | Some baseCommand \<Rightarrow>
                 Some \<lparr>buttons = buttons baseCommand,
                       durationMs = durationMs baseCommand,
                       normalized = normalized baseCommand,
                       repeatCount = parseInt repeatRaw\<rparr>))"
  apply (subst parseCommand.simps [of raw allowCommandSpam])
  apply (simp only: assms Let_def option.case prod.case)
  apply simp
  done

lemma parseCommand_shape:
  assumes "parseCommand raw allowCommandSpam = Some p"
  shows "\<exists>hold. (length (buttons p) = 1 \<or> length (buttons p) = 2) \<and>
           list_all (\<lambda>b. b \<in> set SUPPORTED_COMMANDS) (buttons p) \<and>
           durationMs p = (if hold then LONG_KEYPRESS_DURATION_MS else KEYPRESS_DURATION_MS) \<and>
           normalized p = join ''+'' (buttons p) @ (if hold then ''-'' else '''')"
proof (cases "spamMatch (normalizeCommand raw)")
  case None
  from parseCommand_combo_shape [OF None assms] show ?thesis by blast
next
  case (Some m)
  obtain commandRaw repeatRaw where m: "m = (commandRaw, repeatRaw)" by (cases m)
  note eq = parseCommand_spam_eq [OF Some [unfolded m]]
  from assms obtain baseCommand where
    b: "parseCommand commandRaw False = Some baseCommand"
    and p: "p = \<lparr>buttons = buttons baseCommand,
                       durationMs = durationMs baseCommand,
                       normalized = normalized baseCommand,
                       repeatCount = parseInt repeatRaw\<rparr>"
    unfolding eq
    by (cases "parseCommand commandRaw False") (simp_all split: if_splits)
  have "spamMatch (normalizeCommand commandRaw) = None"
  proof (cases "spamMatch (normalizeCommand commandRaw)")
    case None
    then show ?thesis .
  next
    case (Some m')
    obtain g ds where "m' = (g, ds)" by (cases m')
    with Some have "parseCommand commandRaw False = None"
      using parseCommand_spam_eq [of commandRaw g ds False] by simp
    with b show ?thesis by simp
  qed
  from parseCommand_combo_shape [OF this b] obtain hold where
    "(length (buttons baseCommand) = 1 \<or> length (buttons baseCommand) = 2) \<and>
     list_all (\<lambda>b. b \<in> set SUPPORTED_COMMANDS) (buttons baseCommand) \<and>
     durationMs baseCommand =
       (if hold then LONG_KEYPRESS_DURATION_MS else KEYPRESS_DURATION_MS) \<and>
     normalized baseCommand = join ''+'' (buttons baseCommand) @ (if hold then ''-'' else '''')"
    by blast
  then show ?thesis
    unfolding p by (intro exI [of _ hold]) simp
qed

lemma reparse_one:
  assumes "b \<in> set SUPPORTED_COMMANDS"
  shows "parseCommand (b @ (if hold then ''-'' else '''')) False =
     Some \<lparr>buttons = [b],
           durationMs = (if hold then LONG_KEYPRESS_DURATION_MS else KEYPRESS_DURATION_MS),
           normalized = b @ (if hold then ''-'' else ''''), repeatCount = 1\<rparr>"
proof -
  let ?s = "b @ (if hold then ''-'' else '''')"
  from supported_letters [OF assms] have b: "b \<noteq> []" "list_all isButtonLetter b" by simp_all
  have st: "list_all isStable b"
    using b(2) letter_stable by (auto simp: list_all_iff)
  then have sts: "list_all isStable ?s" using minus_stable by simp
  have plus: "CHR ''+'' \<notin> set b" and minus: "last b \<noteq> CHR ''-''"
    using b letter_not_plus letter_not_minus by (auto simp: list_all_iff)
  have n: "normalizeCommand ?s = ?s" by (rule normalizeCommand_stable [OF sts])
  have m: "spamMatch (normalizeCommand ?s) = None"
    unfolding n by (rule spamMatch_stable [OF sts])
  have e: "endsWith ?s ''-'' = hold"
    using b(1) minus by (simp add: endsWith_last)
  have t: "trim b = b"
    using st by (intro trim_no_ws) (simp add: list_all_iff isStable_def)
  show ?thesis
    unfolding parseCommand_combo_eq [OF m] n Let_def e
    using plus assms b(1) by (simp add: split_str_no_sep t)
qed

lemma reparse_two:
  assumes "b1 \<in> set SUPPORTED_COMMANDS" "b2 \<in> set SUPPORTED_COMMANDS"
  shows "parseCommand (b1 @ ''+'' @ b2 @ (if hold then ''-'' else '''')) False =
     Some \<lparr>buttons = [b1, b2],
           durationMs = (if hold then LONG_KEYPRESS_DURATION_MS else KEYPRESS_DURATION_MS),
           normalized = b1 @ ''+'' @ b2 @ (if hold then ''-'' else ''''), repeatCount = 1\<rparr>"
proof -
  let ?s = "b1 @ ''+'' @ b2 @ (if hold then ''-'' else '''')"
  from supported_letters [OF assms(1)] have b1: "b1 \<noteq> []" "list_all isButtonLetter b1" by simp_all
  from supported_letters [OF assms(2)] have b2: "b2 \<noteq> []" "list_all isButtonLetter b2" by simp_all
  have st: "list_all isStable b1" "list_all isStable b2"
    using b1(2) b2(2) letter_stable by (auto simp: list_all_iff)
  then have sts: "list_all isStable ?s" using minus_stable plus_stable by simp
  have plus: "CHR ''+'' \<notin> set b1" "CHR ''+'' \<notin> set b2" and minus: "last b2 \<noteq> CHR ''-''"
    using b1 b2 letter_not_plus letter_not_minus by (auto simp: list_all_iff)
  have n: "normalizeCommand ?s = ?s" by (rule normalizeCommand_stable [OF sts])
  have m: "spamMatch (normalizeCommand ?s) = None"
    unfolding n by (rule spamMatch_stable [OF sts])
  have e: "endsWith ?s ''-'' = hold"
    using b2(1) minus by (simp add: endsWith_last)
  have t: "trim b1 = b1" "trim b2 = b2"
    using st by (auto intro!: trim_no_ws simp: list_all_iff isStable_def)
  have bl: "(if hold then butlast ?s else ?s) = b1 @ CHR ''+'' # b2"
    using b2(1) by (simp add: butlast_append)
  show ?thesis
    unfolding parseCommand_combo_eq [OF m] n Let_def e bl
    using plus assms b1(1) b2(1) by (simp add: split_str_sep split_str_no_sep t)
qed

lemma reparse_normalized:
  assumes "parseCommand raw allowCommandSpam = Some p"
  shows "parseCommand (normalized p) False = Some (p\<lparr>repeatCount := 1\<rparr>)"
proof -
  from parseCommand_shape [OF assms] obtain hold where
    len: "length (buttons p) = 1 \<or> length (buttons p) = 2"
    and sup: "list_all (\<lambda>b. b \<in> set SUPPORTED_COMMANDS) (buttons p)"
    and dur: "durationMs p = (if hold then LONG_KEYPRESS_DURATION_MS else KEYPRESS_DURATION_MS)"
    and norm: "normalized p = join ''+'' (buttons p) @ (if hold then ''-'' else '''')"
    by blast
  from len show ?thesis
  proof
    assume "length (buttons p) = 1"
    then obtain b where b: "buttons p = [b]" by (cases "buttons p") auto
    with sup have "b \<in> set SUPPORTED_COMMANDS" by simp
    from reparse_one [OF this, of hold] b dur norm show ?thesis by simp
  next
    assume "length (buttons p) = 2"
    then obtain b1 b2 where b: "buttons p = [b1, b2]"
      by (cases "buttons p"; cases "tl (buttons p)") auto
    with sup have "b1 \<in> set SUPPORTED_COMMANDS" "b2 \<in> set SUPPORTED_COMMANDS" by simp_all
    from reparse_two [OF this, of hold] b dur norm show ?thesis by simp
  qed
qed

section \<open>Properties of the chatter activity tracker\<close>

lemma evictExpired_dropWhile:
  "evictExpired cutoff entries = dropWhile (\<lambda>e. entryCreatedAt e < cutoff) entries"
  by (induction entries) auto










lemmas tracker_evals =
  trackerRun_def recordChatterAndCountUnique_def snapshotSpamAbility_def
  countUniqueChattersInWindow_def CHATTER_WINDOW_MS_def MIN_UNIQUE_CHATTERS_FOR_NO_SPAM_def



text \<open>
  Claim C7, as the code has it. The gate state that \<open>snapshot\<close> computes for the overlay
  records no chatter, but it is the same \<open>countUniqueChattersInWindow\<close> that the recording
  path runs, so it evicts: the activity sequence after the computation is the sequence
  before it without the head entries older than the window. Nothing is appended, and the
  sequence is unchanged when it is empty or its first entry is within the window. The
  object reports the count of distinct ids that remain, the threshold 3 and the window of
  10 minutes.
\<close>

theorem snapshotSpamAbility_effect:
  "snd (snapshotSpamAbility now chatterActivity) =
     dropWhile (\<lambda>e. now - entryCreatedAt e > CHATTER_WINDOW_MS) chatterActivity \<and>
   ((chatterActivity = [] \<or> now - entryCreatedAt (hd chatterActivity) \<le> CHATTER_WINDOW_MS) \<longrightarrow>
      snd (snapshotSpamAbility now chatterActivity) = chatterActivity) \<and>
   fst (snapshotSpamAbility now chatterActivity) =
     \<lparr>enabled = card (entryDid ` set (snd (snapshotSpamAbility now chatterActivity))) < 3,
      uniqueChatters = card (entryDid ` set (snd (snapshotSpamAbility now chatterActivity))),
      threshold = 3,
      windowMinutes = 10\<rparr>"
proof -
  let ?W = CHATTER_WINDOW_MS
  have p1: "(\<lambda>e. now - entryCreatedAt e > ?W) = (\<lambda>e. entryCreatedAt e < now - ?W)"
    by (rule ext) arith
  have s: "snd (snapshotSpamAbility now chatterActivity) =
      dropWhile (\<lambda>e. entryCreatedAt e < now - ?W) chatterActivity"
    by (simp add: snapshotSpamAbility_def countUniqueChattersInWindow_def
        evictExpired_dropWhile Let_def)
  have keep: "dropWhile (\<lambda>e. entryCreatedAt e < now - ?W) chatterActivity = chatterActivity"
    if "chatterActivity = [] \<or> now - entryCreatedAt (hd chatterActivity) \<le> ?W"
    using that by (cases chatterActivity) auto
  have f: "fst (snapshotSpamAbility now chatterActivity) =
     \<lparr>enabled = card (entryDid ` set (snd (snapshotSpamAbility now chatterActivity))) < 3,
      uniqueChatters = card (entryDid ` set (snd (snapshotSpamAbility now chatterActivity))),
      threshold = 3,
      windowMinutes = 10\<rparr>"
    by (simp add: snapshotSpamAbility_def countUniqueChattersInWindow_def Let_def
        length_remdups_card_conv MIN_UNIQUE_CHATTERS_FOR_NO_SPAM_def CHATTER_WINDOW_MS_def)
  show ?thesis
    unfolding p1 using s keep f by simp
qed

theorem snapshotSpamAbility_effect_witness:
  "600000 - entryCreatedAt (hd [\<lparr>entryDid = ''did:a'', entryCreatedAt = 0\<rparr>]) \<le> CHATTER_WINDOW_MS \<and>
   snd (snapshotSpamAbility 600000 [\<lparr>entryDid = ''did:a'', entryCreatedAt = 0\<rparr>]) =
     [\<lparr>entryDid = ''did:a'', entryCreatedAt = 0\<rparr>] \<and>
   uniqueChatters (fst (snapshotSpamAbility 600000 [\<lparr>entryDid = ''did:a'', entryCreatedAt = 0\<rparr>])) = 1"
  using snapshotSpamAbility_effect [of 600000 "[\<lparr>entryDid = ''did:a'', entryCreatedAt = 0\<rparr>]"]
  by (simp add: CHATTER_WINDOW_MS_def)

text \<open>
  The claim as stated, that the activity sequence is identical before and after, fails
  once the oldest entry has expired: the snapshot taken at 600001 ms removes the entry
  recorded at 0 ms.
\<close>

theorem snapshot_evicts_counterexample:
  "snd (snapshotSpamAbility 600001 [\<lparr>entryDid = ''did:a'', entryCreatedAt = 0\<rparr>]) = [] \<and>
   snd (snapshotSpamAbility 600001 [\<lparr>entryDid = ''did:a'', entryCreatedAt = 0\<rparr>]) \<noteq>
     [\<lparr>entryDid = ''did:a'', entryCreatedAt = 0\<rparr>]"
  by (simp add: tracker_evals)

section \<open>Properties of the identity cache\<close>

lemma hydrate_miss:
  assumes "cachedIdentityForDid d now s = None" "d \<notin> pendingIdentityLookups s"
  shows "startedLookups (hydrateIdentity d now s) = startedLookups s @ [d]"
    and "d \<in> pendingIdentityLookups (hydrateIdentity d now s)"
  using assms
  by (auto simp: hydrateIdentity_def cachedIdentityForDid_def split: option.splits if_splits)

lemma hydrate_in_flight:
  assumes "d \<in> pendingIdentityLookups s"
  shows "startedLookups (hydrateIdentity d now s) = startedLookups s"
    and "pendingIdentityLookups (hydrateIdentity d now s) = pendingIdentityLookups s"
  using assms
  by (auto simp: hydrateIdentity_def split: option.splits)

lemma hydrate_other:
  assumes "d' \<noteq> d"
  shows "count_list (startedLookups (hydrateIdentity d' now s)) d = count_list (startedLookups s) d"
    and "d \<in> pendingIdentityLookups s \<Longrightarrow> d \<in> pendingIdentityLookups (hydrateIdentity d' now s)"
  using assms
  by (auto simp: hydrateIdentity_def split: option.splits)

lemma identityStep_in_flight:
  assumes "d \<in> pendingIdentityLookups s" "\<not> settles d e"
  shows "d \<in> pendingIdentityLookups (identityStep s e) \<and>
         count_list (startedLookups (identityStep s e)) d = count_list (startedLookups s) d"
proof (cases e)
  case (Hydrate d' now)
  show ?thesis
  proof (cases "d' = d")
    case True
    with Hydrate assms(1) show ?thesis by (simp add: hydrate_in_flight)
  next
    case False
    with Hydrate assms(1) show ?thesis by (simp add: hydrate_other)
  qed
next
  case (LookupSettled d' outcome now)
  with assms show ?thesis
    by (auto simp: lookupSettled_def Let_def split: LookupOutcome.splits)
next
  case (CacheLocal identity now)
  with assms show ?thesis by (simp add: cacheLocalIdentity_def)
qed

lemma identityRun_in_flight:
  assumes "d \<in> pendingIdentityLookups s" "list_all (\<lambda>e. \<not> settles d e) events"
  shows "d \<in> pendingIdentityLookups (identityRun events s) \<and>
         count_list (startedLookups (identityRun events s)) d = count_list (startedLookups s) d"
  using assms
proof (induction events arbitrary: s)
  case Nil
  then show ?case by (simp add: identityRun_def)
next
  case (Cons e events)
  from Cons.prems have step: "d \<in> pendingIdentityLookups (identityStep s e)"
    "count_list (startedLookups (identityStep s e)) d = count_list (startedLookups s) d"
    using identityStep_in_flight [of d s e] by simp_all
  from Cons.IH [OF step(1)] Cons.prems(2) step(2) show ?case
    by (simp add: identityRun_def)
qed

text \<open>
  Claim C8. A participant id has no valid cache entry and no lookup in flight. A first
  \<open>hydrateIdentity\<close> for it starts one external call. Whatever happens next, as long as
  that lookup has not settled, a second \<open>hydrateIdentity\<close> for the same id finds the
  in-flight marker (or, after a local hint was cached, a valid entry) and starts no call:
  over the two requests and everything between them exactly one call for the id is
  started.
\<close>

theorem hydrateIdentity_in_flight_dedup:
  assumes "cachedIdentityForDid d t1 s = None"
    and "d \<notin> pendingIdentityLookups s"
    and "list_all (\<lambda>e. \<not> settles d e) events"
  shows "startedLookups (hydrateIdentity d t1 s) = startedLookups s @ [d] \<and>
         d \<in> pendingIdentityLookups (identityRun events (hydrateIdentity d t1 s)) \<and>
         startedLookups (hydrateIdentity d t2 (identityRun events (hydrateIdentity d t1 s))) =
           startedLookups (identityRun events (hydrateIdentity d t1 s)) \<and>
         count_list
           (startedLookups (hydrateIdentity d t2 (identityRun events (hydrateIdentity d t1 s)))) d =
           count_list (startedLookups s) d + 1"
proof -
  let ?s1 = "hydrateIdentity d t1 s"
  let ?s2 = "identityRun events ?s1"
  note first = hydrate_miss [OF assms(1,2)]
  from identityRun_in_flight [OF first(2) assms(3)]
  have run: "d \<in> pendingIdentityLookups ?s2"
    "count_list (startedLookups ?s2) d = count_list (startedLookups ?s1) d" by simp_all
  note second = hydrate_in_flight [OF run(1), of t2]
  show ?thesis
    using first(1) run second(1) by simp
qed

theorem hydrateIdentity_in_flight_dedup_witness:
  "cachedIdentityForDid ''did:a'' 10 initialIdentityState = None \<and>
   ''did:a'' \<notin> pendingIdentityLookups initialIdentityState \<and>
   list_all (\<lambda>e. \<not> settles ''did:a'' e)
     [Hydrate ''did:b'' 11, LookupSettled ''did:b'' Empty 12, Hydrate ''did:a'' 13] \<and>
   startedLookups (hydrateIdentity ''did:a'' 14
     (identityRun [Hydrate ''did:b'' 11, LookupSettled ''did:b'' Empty 12, Hydrate ''did:a'' 13]
        (hydrateIdentity ''did:a'' 10 initialIdentityState))) = [''did:a'', ''did:b'']"
proof -
  let ?events = "[Hydrate ''did:b'' 11, LookupSettled ''did:b'' Empty 12, Hydrate ''did:a'' 13]"
  have a: "cachedIdentityForDid ''did:a'' 10 initialIdentityState = None"
    by (simp add: cachedIdentityForDid_def initialIdentityState_def)
  have b: "''did:a'' \<notin> pendingIdentityLookups initialIdentityState"
    by (simp add: initialIdentityState_def)
  have c: "list_all (\<lambda>e. \<not> settles ''did:a'' e) ?events" by simp
  have run: "startedLookups (identityRun ?events (hydrateIdentity ''did:a'' 10 initialIdentityState))
      = [''did:a'', ''did:b'']"
    by (simp add: identityRun_def hydrateIdentity_def lookupSettled_def initialIdentityState_def)
  from hydrateIdentity_in_flight_dedup [OF a b c, of 14] a b c run show ?thesis by simp
qed

end
